theory Spec2Isabelle
  imports Complex_Main "HOL-Library.AList"
begin

section \<open>The symbolic planner of OBLISK (src/core/symbolic\_planner.py)\<close>

text \<open>
  A shallow embedding of the class \<open>SymbolicPlanner\<close>. Python dictionaries keep their
  insertion order and \<open>d[k] = v\<close> on a key already present overwrites the value in
  place, so every dictionary is an association list written with \<open>AList.update\<close> and
  read with \<open>map_of\<close>. Python sets of facts are HOL sets of strings. Methods that
  mutate \<open>self\<close> take the planner and return the new one. Calls to the logger are
  left out: they change nothing a method reads or returns.
\<close>

subsection \<open>Data\<close>

datatype PlanStatus = PENDING | IN_PROGRESS | COMPLETED | FAILED

text \<open>
  Values of Python's \<open>Any\<close>, as far as action parameters and planning constraints
  hold them: integers, strings and \<open>None\<close>.
\<close>

datatype pyval = PyInt int | PyStr string | PyNone

text \<open>Exceptions a method of the planner can raise.\<close>

datatype error = TypeError | KeyError

text \<open>
  The dataclasses \<open>Action\<close> and \<open>Goal\<close>. The cost is a Python float; the planner
  stores it and never computes with it, so it is modelled as a real number.
\<close>

record Action =
  name :: string
  parameters :: "(string \<times> pyval) list"
  preconditions :: "string list"
  effects :: "string list"
  cost :: real

record Goal =
  description :: string
  conditions :: "string list"
  priority :: int

text \<open>
  A stored plan is itself a dictionary from field names to values of several types
  (\<open>Dict[str, Any]\<close>); \<open>planval\<close> is the sum of the types \<open>create_plan\<close> puts there.
\<close>

datatype planval =
    VStr string
  | VGoal Goal
  | VState "string set"
  | VActions "Action list"
  | VStatus PlanStatus
  | VInt int

type_synonym plan = "(string \<times> planval) list"

text \<open>The attributes of a \<open>SymbolicPlanner\<close> object, and \<open>__init__\<close>.\<close>

record planner =
  actions :: "(string \<times> Action) list"
  plans :: "(string \<times> plan) list"

definition init :: planner where
  "init = \<lparr>actions = [], plans = []\<rparr>"

subsection \<open>Registration\<close>

text \<open>
  \<open>register_action\<close> stores the action under its identifier and returns \<open>True\<close>;
  the source has no other statement but the log line.
\<close>

definition register_action :: "planner \<Rightarrow> string \<Rightarrow> Action \<Rightarrow> planner \<times> bool" where
  "register_action pl action_id action =
     (pl\<lparr>actions := AList.update action_id action (actions pl)\<rparr>, True)"

subsection \<open>States, effects and goals\<close>

definition startswith :: "string \<Rightarrow> string \<Rightarrow> bool" where
  "startswith s p = (take (length p) s = p)"

text \<open>One iteration of the loop of \<open>_apply_action\<close> over the effect list.\<close>

definition apply_effect :: "string set \<Rightarrow> string \<Rightarrow> string set" where
  "apply_effect new_state effect =
     (if startswith effect ''NOT_'' then new_state - {drop 4 effect}
      else insert effect new_state)"

definition apply_action :: "Action \<Rightarrow> string set \<Rightarrow> string set" where
  "apply_action action state = foldl apply_effect state (effects action)"

definition check_goal :: "Goal \<Rightarrow> string set \<Rightarrow> bool" where
  "check_goal goal state = list_all (\<lambda>condition. condition \<in> state) (conditions goal)"

definition get_applicable_actions :: "planner \<Rightarrow> string set \<Rightarrow> Action list" where
  "get_applicable_actions pl state =
     filter (\<lambda>action. list_all (\<lambda>precond. precond \<in> state) (preconditions action))
       (map snd (actions pl))"

subsection \<open>Forward search\<close>

text \<open>
  The \<open>for\<close> loop of \<open>_forward_search\<close> has three exits: the \<open>return plan\<close> inside
  the loop, the \<open>break\<close> when no action is applicable, and the end of the range. The
  last two fall through to the check after the loop with the plan and state reached.
\<close>

datatype loop_exit =
    Returned "Action list"
  | Broke "Action list" "string set"
  | Ran_out "Action list" "string set"

fun search_loop :: "nat \<Rightarrow> planner \<Rightarrow> Goal \<Rightarrow> Action list \<Rightarrow> string set \<Rightarrow> loop_exit" where
  "search_loop 0 pl goal plan current_state = Ran_out plan current_state"
| "search_loop (Suc k) pl goal plan current_state =
     (if check_goal goal current_state then Returned plan
      else (case get_applicable_actions pl current_state of
              [] \<Rightarrow> Broke plan current_state
            | action # _ \<Rightarrow>
                search_loop k pl goal (plan @ [action]) (apply_action action current_state)))"

text \<open>
  \<open>range(max_depth)\<close>: an integer gives that many iterations (none when it is
  negative), any other value raises \<open>TypeError\<close>.
\<close>

definition range_len :: "pyval \<Rightarrow> error + nat" where
  "range_len v = (case v of PyInt n \<Rightarrow> Inr (nat n) | PyStr _ \<Rightarrow> Inl TypeError | PyNone \<Rightarrow> Inl TypeError)"

definition max_depth_of :: "(string \<times> pyval) list \<Rightarrow> pyval" where
  "max_depth_of constraints =
     (case map_of constraints ''max_depth'' of None \<Rightarrow> PyInt 10 | Some v \<Rightarrow> v)"

definition after_loop :: "Goal \<Rightarrow> Action list \<Rightarrow> string set \<Rightarrow> Action list option" where
  "after_loop goal plan current_state =
     (if check_goal goal current_state then Some plan else None)"

definition forward_search ::
  "planner \<Rightarrow> Goal \<Rightarrow> string set \<Rightarrow> (string \<times> pyval) list \<Rightarrow> error + Action list option" where
  "forward_search pl goal state constraints =
     (case range_len (max_depth_of constraints) of
        Inl e \<Rightarrow> Inl e
      | Inr n \<Rightarrow>
          (case search_loop n pl goal [] state of
             Returned plan \<Rightarrow> Inr (Some plan)
           | Broke plan current_state \<Rightarrow> Inr (after_loop goal plan current_state)
           | Ran_out plan current_state \<Rightarrow> Inr (after_loop goal plan current_state)))"

text \<open>
  Two notions the properties below are stated with. \<open>apply_sequence\<close> runs a
  sequence of actions from a state, one \<open>_apply_action\<close> after the other.
  \<open>exit_plan\<close> reads the plan built when the loop was left; the loop appends one
  action per expansion, so its length is the number of expansions performed.
\<close>

definition apply_sequence :: "string set \<Rightarrow> Action list \<Rightarrow> string set" where
  "apply_sequence state acts = foldl (\<lambda>st a. apply_action a st) state acts"

fun exit_plan :: "loop_exit \<Rightarrow> Action list" where
  "exit_plan (Returned plan) = plan"
| "exit_plan (Broke plan current_state) = plan"
| "exit_plan (Ran_out plan current_state) = plan"

text \<open>
  \<open>recost k\<close> gives every registered action the cost \<open>k\<close> assigns to it and
  changes nothing else; it is used to state that the search does not depend on costs.
\<close>

definition recost :: "(Action \<Rightarrow> real) \<Rightarrow> planner \<Rightarrow> planner" where
  "recost k pl = pl\<lparr>actions := map (\<lambda>(i, a). (i, a\<lparr>cost := k a\<rparr>)) (actions pl)\<rparr>"

subsection \<open>The plan store\<close>

text \<open>
  \<open>create_plan\<close> draws a fresh UUID; its 32 hexadecimal digits are the argument
  \<open>hex\<close>. \<open>constraints or {}\<close> turns \<open>None\<close> into the empty dictionary.
\<close>

definition new_plan :: "string \<Rightarrow> Goal \<Rightarrow> string set \<Rightarrow> Action list \<Rightarrow> plan" where
  "new_plan plan_id goal initial_state action_sequence =
     [(''plan_id'', VStr plan_id),
      (''goal'', VGoal goal),
      (''initial_state'', VState initial_state),
      (''actions'', VActions action_sequence),
      (''status'', VStatus PENDING),
      (''current_step'', VInt 0)]"

definition create_plan ::
  "planner \<Rightarrow> string \<Rightarrow> Goal \<Rightarrow> string set \<Rightarrow> (string \<times> pyval) list option
     \<Rightarrow> error + (planner \<times> string option)" where
  "create_plan pl hex goal initial_state constraints =
     (let plan_id = ''plan-'' @ take 12 hex in
      case forward_search pl goal initial_state
             (case constraints of None \<Rightarrow> [] | Some c \<Rightarrow> c) of
        Inl e \<Rightarrow> Inl e
      | Inr None \<Rightarrow> Inr (pl, None)
      | Inr (Some action_sequence) \<Rightarrow>
          Inr (pl\<lparr>plans := AList.update plan_id
                      (new_plan plan_id goal initial_state action_sequence) (plans pl)\<rparr>,
               Some plan_id))"

definition execute_plan :: "planner \<Rightarrow> string \<Rightarrow> planner \<times> bool" where
  "execute_plan pl plan_id =
     (case map_of (plans pl) plan_id of
        None \<Rightarrow> (pl, False)
      | Some plan \<Rightarrow>
          (pl\<lparr>plans := AList.update plan_id
                  (AList.update ''status'' (VStatus IN_PROGRESS) plan) (plans pl)\<rparr>,
           True))"

definition get_plan :: "planner \<Rightarrow> string \<Rightarrow> plan option" where
  "get_plan pl plan_id = map_of (plans pl) plan_id"

text \<open>
  \<open>plan["status"] if plan else None\<close>: a missing plan and an empty dictionary are
  both falsy; reading a missing key raises \<open>KeyError\<close>.
\<close>

definition get_plan_status :: "planner \<Rightarrow> string \<Rightarrow> error + planval option" where
  "get_plan_status pl plan_id =
     (case map_of (plans pl) plan_id of
        None \<Rightarrow> Inr None
      | Some plan \<Rightarrow>
          (if plan = [] then Inr None
           else (case map_of plan ''status'' of
                   None \<Rightarrow> Inl KeyError
                 | Some v \<Rightarrow> Inr (Some v))))"

subsection \<open>Example domains\<close>

text \<open>
  The blocks scenario: one action \<open>pickup\<close>, registered in a fresh planner.
\<close>

definition pickup :: Action where
  "pickup = \<lparr>name = ''pickup'', parameters = [],
     preconditions = [''hand_empty'', ''block_on_table''],
     effects = [''holding_block'', ''NOT_hand_empty''], cost = 1\<rparr>"

definition blocks_goal :: Goal where
  "blocks_goal = \<lparr>description = ''hold the block'', conditions = [''holding_block''], priority = 1\<rparr>"

definition blocks_state :: "string set" where
  "blocks_state = {''hand_empty'', ''block_on_table''}"

definition blocks_planner :: planner where
  "blocks_planner = fst (register_action init ''pickup'' pickup)"

definition sample_hex :: string where
  "sample_hex = ''0123456789abcdef0123456789abcdef''"

text \<open>The planner after a plan for the blocks scenario has been created.\<close>

definition blocks_created :: planner where
  "blocks_created =
     (case create_plan blocks_planner sample_hex blocks_goal blocks_state None of
        Inl e \<Rightarrow> blocks_planner
      | Inr r \<Rightarrow> fst r)"

text \<open>
  Two actions that each reach the goal \<open>done\<close> in one step, the dearer one
  registered first.
\<close>

definition slow :: Action where
  "slow = \<lparr>name = ''slow'', parameters = [], preconditions = [],
     effects = [''done''], cost = 5\<rparr>"

definition quick :: Action where
  "quick = \<lparr>name = ''quick'', parameters = [], preconditions = [],
     effects = [''done''], cost = 1\<rparr>"

definition done_goal :: Goal where
  "done_goal = \<lparr>description = ''finish'', conditions = [''done''], priority = 1\<rparr>"

definition two_routes :: planner where
  "two_routes = fst (register_action (fst (register_action init ''slow'' slow)) ''quick'' quick)"

text \<open>
  An action that is always applicable and leads back to a state already seen, and
  an action whose effects add and remove the same fact, at a negative cost.
\<close>

definition spin :: Action where
  "spin = \<lparr>name = ''spin'', parameters = [], preconditions = [],
     effects = [''turned''], cost = 1\<rparr>"

definition spin_planner :: planner where
  "spin_planner = fst (register_action init ''spin'' spin)"

definition clash :: Action where
  "clash = \<lparr>name = ''clash'', parameters = [], preconditions = [],
     effects = [''x'', ''NOT_x''], cost = - 1\<rparr>"

definition hsalc :: Action where
  "hsalc = \<lparr>name = ''hsalc'', parameters = [], preconditions = [],
     effects = [''NOT_x'', ''x''], cost = 1\<rparr>"

definition x_goal :: Goal where
  "x_goal = \<lparr>description = ''reach x'', conditions = [''x''], priority = 1\<rparr>"

text \<open>
  Constraints that name the selection policy \<open>LOWEST_COST\<close>, and the blocks planner
  after the caller has marked its plan as completed through the dictionary that
  \<open>get_plan\<close> hands out.
\<close>

definition lowest_cost :: "(string \<times> pyval) list" where
  "lowest_cost = [(''selection_policy'', PyStr ''LOWEST_COST'')]"

definition blocks_completed :: planner where
  "blocks_completed =
     \<lparr>actions = [(''pickup'', pickup)],
      plans = [(''plan-0123456789ab'',
                AList.update ''status'' (VStatus COMPLETED)
                  (new_plan ''plan-0123456789ab'' blocks_goal blocks_state [pickup]))]\<rparr>"


text \<open>
  A domain in which the goal \<open>done\<close> takes two steps: \<open>finish\<close> needs the fact
  that \<open>go\<close> adds, and a cheap action \<open>idle\<close> is applicable throughout.
\<close>

definition finish :: Action where
  "finish = \<lparr>name = ''finish'', parameters = [], preconditions = [''mid''],
     effects = [''done''], cost = 5\<rparr>"

definition go :: Action where
  "go = \<lparr>name = ''go'', parameters = [], preconditions = [],
     effects = [''mid''], cost = 5\<rparr>"

definition idle :: Action where
  "idle = \<lparr>name = ''idle'', parameters = [], preconditions = [],
     effects = [''idle''], cost = 1\<rparr>"

definition two_steps :: planner where
  "two_steps =
     fst (register_action (fst (register_action (fst (register_action init
       ''finish'' finish)) ''go'' go)) ''idle'' idle)"

section \<open>Properties\<close>

subsection \<open>Dictionaries\<close>

lemma map_of_update_same: "map_of (AList.update k v ps) k = Some v"
  by (simp add: update_conv')

lemma map_of_update_other: "k' \<noteq> k \<Longrightarrow> map_of (AList.update k v ps) k' = map_of ps k'"
  by (simp add: update_conv')

lemma update_absent: "k \<notin> fst ` set ps \<Longrightarrow> AList.update k v ps = ps @ [(k, v)]"
  by (induction ps) auto

lemma update_present:
  "distinct (map fst ps) \<Longrightarrow> k \<in> fst ` set ps \<Longrightarrow>
   AList.update k v ps = map (\<lambda>p. if fst p = k then (k, v) else p) ps"
proof (induction ps)
  case Nil
  then show ?case by simp
next
  case (Cons p ps)
  show ?case
  proof (cases "fst p = k")
    case True
    with Cons.prems have "k \<notin> fst ` set ps" by auto
    then have "map (\<lambda>p. if fst p = k then (k, v) else p) ps = ps"
      by (induction ps) auto
    with True show ?thesis by simp
  next
    case False
    with Cons show ?thesis by auto
  qed
qed

lemma list_all_mem_subset: "list_all (\<lambda>x. x \<in> A) xs = (set xs \<subseteq> A)"
  by (auto simp: list_all_iff)

lemma update_not_Nil: "AList.update k v ps \<noteq> []"
  by (cases ps) auto

lemmas example_defs =
  init_def register_action_def pickup_def blocks_goal_def blocks_state_def
  blocks_planner_def sample_hex_def slow_def quick_def done_goal_def two_routes_def
  spin_def spin_planner_def clash_def hsalc_def x_goal_def

lemmas planner_defs =
  startswith_def apply_effect_def apply_action_def check_goal_def
  get_applicable_actions_def range_len_def max_depth_of_def after_loop_def
  forward_search_def new_plan_def create_plan_def execute_plan_def

subsection \<open>The search loop\<close>

lemma apply_sequence_Cons:
  "apply_sequence st (a # acts) = apply_sequence (apply_action a st) acts"
  by (simp add: apply_sequence_def)

lemma applicable_registered:
  "get_applicable_actions pl st = a # rest \<Longrightarrow> a \<in> snd ` set (actions pl)"
proof -
  assume "get_applicable_actions pl st = a # rest"
  then have "a \<in> set (get_applicable_actions pl st)" by simp
  then show ?thesis by (auto simp: get_applicable_actions_def)
qed

lemma search_loop_trace:
  "\<exists>ext. length ext \<le> n \<and> set ext \<subseteq> snd ` set (actions pl) \<and>
     (case search_loop n pl g plan st of
        Returned p \<Rightarrow> p = plan @ ext \<and> check_goal g (apply_sequence st ext)
      | Broke p st' \<Rightarrow> p = plan @ ext \<and> st' = apply_sequence st ext \<and>
          \<not> check_goal g st' \<and> get_applicable_actions pl st' = []
      | Ran_out p st' \<Rightarrow> p = plan @ ext \<and> st' = apply_sequence st ext \<and> length ext = n)"
proof (induction n arbitrary: plan st)
  case 0
  show ?case by (rule exI [of _ "[]"]) (simp add: apply_sequence_def)
next
  case (Suc n)
  show ?case
  proof (cases "check_goal g st")
    case True
    then show ?thesis by (intro exI [of _ "[]"]) (simp add: apply_sequence_def)
  next
    case False
    note ng = this
    show ?thesis
    proof (cases "get_applicable_actions pl st")
      case Nil
      with ng show ?thesis by (intro exI [of _ "[]"]) (simp add: apply_sequence_def)
    next
      case (Cons a rest)
      from Suc.IH [of "plan @ [a]" "apply_action a st"]
      obtain ext where e: "length ext \<le> n" "set ext \<subseteq> snd ` set (actions pl)"
        "(case search_loop n pl g (plan @ [a]) (apply_action a st) of
            Returned p \<Rightarrow> p = (plan @ [a]) @ ext \<and> check_goal g (apply_sequence (apply_action a st) ext)
          | Broke p st' \<Rightarrow> p = (plan @ [a]) @ ext \<and> st' = apply_sequence (apply_action a st) ext \<and>
              \<not> check_goal g st' \<and> get_applicable_actions pl st' = []
          | Ran_out p st' \<Rightarrow> p = (plan @ [a]) @ ext \<and> st' = apply_sequence (apply_action a st) ext \<and> length ext = n)"
        by blast
      have reg: "a \<in> snd ` set (actions pl)" using Cons by (rule applicable_registered)
      show ?thesis
      proof (intro exI [of _ "a # ext"] conjI)
        show "length (a # ext) \<le> Suc n" using e(1) by simp
        show "set (a # ext) \<subseteq> snd ` set (actions pl)" using e(2) reg by simp
        show "case search_loop (Suc n) pl g plan st of
            Returned p \<Rightarrow> p = plan @ a # ext \<and> check_goal g (apply_sequence st (a # ext))
          | Broke p st' \<Rightarrow> p = plan @ a # ext \<and> st' = apply_sequence st (a # ext) \<and>
              \<not> check_goal g st' \<and> get_applicable_actions pl st' = []
          | Ran_out p st' \<Rightarrow> p = plan @ a # ext \<and> st' = apply_sequence st (a # ext) \<and> length (a # ext) = Suc n"
          using e(3) ng Cons by (simp add: apply_sequence_Cons split: loop_exit.splits)
      qed
    qed
  qed
qed

lemma forward_search_Some:
  assumes "forward_search pl g s c = Inr (Some p)"
  shows "check_goal g (apply_sequence s p) \<and> set p \<subseteq> snd ` set (actions pl) \<and>
         (\<exists>n. max_depth_of c = PyInt n \<and> length p \<le> nat n)"
proof -
  from assms obtain n where n: "max_depth_of c = PyInt n"
    by (cases "max_depth_of c") (simp_all add: forward_search_def range_len_def)
  from search_loop_trace [where n = "nat n" and pl = pl and g = g and plan = "[]" and st = s]
  obtain ext where e: "length ext \<le> nat n" "set ext \<subseteq> snd ` set (actions pl)"
     "(case search_loop (nat n) pl g [] s of
        Returned p \<Rightarrow> p = [] @ ext \<and> check_goal g (apply_sequence s ext)
      | Broke p st' \<Rightarrow> p = [] @ ext \<and> st' = apply_sequence s ext \<and>
          \<not> check_goal g st' \<and> get_applicable_actions pl st' = []
      | Ran_out p st' \<Rightarrow> p = [] @ ext \<and> st' = apply_sequence s ext \<and> length ext = nat n)"
    by blast
  from assms n e(3) have "p = ext \<and> check_goal g (apply_sequence s ext)"
    by (auto simp: forward_search_def range_len_def after_loop_def
        split: loop_exit.splits if_splits)
  with e n show ?thesis by simp
qed

lemma search_loop_cases:
  "(\<exists>p. search_loop n pl g plan st = Returned p) \<or>
   (\<exists>p st'. search_loop n pl g plan st = Broke p st' \<and> \<not> check_goal g st') \<or>
   (\<exists>p st'. search_loop n pl g plan st = Ran_out p st')"
proof -
  from search_loop_trace [where n = n and pl = pl and g = g and plan = plan and st = st]
  show ?thesis by (cases "search_loop n pl g plan st") auto
qed

lemma search_first_step:
  assumes "\<not> check_goal g s" and "get_applicable_actions pl s = a # rest"
    and "check_goal g (apply_action a s)"
  shows "search_loop (Suc k) pl g [] s = Returned [a] \<or>
         search_loop (Suc k) pl g [] s = Ran_out [a] (apply_action a s)"
  using assms by (cases k) simp_all

lemma search_loop_satisfied:
  "check_goal g s \<Longrightarrow>
   search_loop k pl g [] s = Returned [] \<or> search_loop k pl g [] s = Ran_out [] s"
  by (cases k) simp_all

lemma search_loop_first:
  "\<exists>ext. exit_plan (search_loop n pl g plan st) = plan @ ext \<and>
     (\<forall>i<length ext.
        \<not> check_goal g (apply_sequence st (take i ext)) \<and>
        (\<exists>rest. get_applicable_actions pl (apply_sequence st (take i ext)) = ext ! i # rest))"
proof (induction n arbitrary: plan st)
  case 0
  show ?case by (rule exI [of _ "[]"]) simp
next
  case (Suc n)
  show ?case
  proof (cases "check_goal g st")
    case True
    then show ?thesis by (intro exI [of _ "[]"]) simp
  next
    case False
    note ng = this
    show ?thesis
    proof (cases "get_applicable_actions pl st")
      case Nil
      with ng show ?thesis by (intro exI [of _ "[]"]) simp
    next
      case (Cons a rest)
      from Suc.IH [of "plan @ [a]" "apply_action a st"]
      obtain ext where e: "exit_plan (search_loop n pl g (plan @ [a]) (apply_action a st)) =
          (plan @ [a]) @ ext"
        and f: "\<forall>i<length ext.
          \<not> check_goal g (apply_sequence (apply_action a st) (take i ext)) \<and>
          (\<exists>rest. get_applicable_actions pl (apply_sequence (apply_action a st) (take i ext)) =
             ext ! i # rest)"
        by blast
      have x: "exit_plan (search_loop (Suc n) pl g plan st) = plan @ a # ext"
        using e ng Cons by simp
      have "\<not> check_goal g (apply_sequence st (take i (a # ext))) \<and>
          (\<exists>rest. get_applicable_actions pl (apply_sequence st (take i (a # ext))) =
             (a # ext) ! i # rest)" if "i < length (a # ext)" for i
      proof (cases i)
        case 0
        with ng Cons show ?thesis by (simp add: apply_sequence_def)
      next
        case (Suc j)
        with that have "j < length ext" by simp
        with f Suc show ?thesis by (simp add: apply_sequence_Cons)
      qed
      with x show ?thesis by blast
    qed
  qed
qed

lemma forward_search_exit_plan:
  assumes "forward_search pl g s c = Inr (Some p)"
  shows "\<exists>n. max_depth_of c = PyInt n \<and> p = exit_plan (search_loop (nat n) pl g [] s)"
proof -
  from assms obtain n where n: "max_depth_of c = PyInt n"
    by (cases "max_depth_of c") (simp_all add: forward_search_def range_len_def)
  with assms have "p = exit_plan (search_loop (nat n) pl g [] s)"
    by (auto simp: forward_search_def range_len_def after_loop_def
        split: loop_exit.splits if_splits)
  with n show ?thesis by blast
qed

lemma forward_search_max_depth_only:
  "max_depth_of c' = max_depth_of c \<Longrightarrow> forward_search pl g s c' = forward_search pl g s c"
  by (simp add: forward_search_def)

lemma apply_action_cost: "apply_action (a\<lparr>cost := x\<rparr>) st = apply_action a st"
  by (simp add: apply_action_def)

lemma applicable_recost:
  "get_applicable_actions (recost k pl) st =
     map (\<lambda>a. a\<lparr>cost := k a\<rparr>) (get_applicable_actions pl st)"
  by (simp add: get_applicable_actions_def recost_def filter_map comp_def split_def)

lemma search_loop_recost:
  "search_loop n (recost k pl) g (map (\<lambda>a. a\<lparr>cost := k a\<rparr>) plan) st =
     (case search_loop n pl g plan st of
        Returned p \<Rightarrow> Returned (map (\<lambda>a. a\<lparr>cost := k a\<rparr>) p)
      | Broke p st' \<Rightarrow> Broke (map (\<lambda>a. a\<lparr>cost := k a\<rparr>) p) st'
      | Ran_out p st' \<Rightarrow> Ran_out (map (\<lambda>a. a\<lparr>cost := k a\<rparr>) p) st')"
proof (induction n arbitrary: plan st)
  case 0
  show ?case by simp
next
  case (Suc n)
  show ?case
  proof (cases "check_goal g st")
    case True
    then show ?thesis by simp
  next
    case False
    show ?thesis
    proof (cases "get_applicable_actions pl st")
      case Nil
      with False show ?thesis by (simp add: applicable_recost)
    next
      case (Cons a rest)
      from Suc.IH [of "plan @ [a]" "apply_action a st"] False Cons
      show ?thesis by (simp add: applicable_recost apply_action_cost)
    qed
  qed
qed

lemma forward_search_recost:
  "forward_search (recost k pl) g s c =
     (case forward_search pl g s c of
        Inl e \<Rightarrow> Inl e
      | Inr None \<Rightarrow> Inr None
      | Inr (Some p) \<Rightarrow> Inr (Some (map (\<lambda>a. a\<lparr>cost := k a\<rparr>) p)))"
proof (cases "range_len (max_depth_of c)")
  case (Inl e)
  then show ?thesis by (simp add: forward_search_def)
next
  case (Inr n)
  from search_loop_recost [of n k pl g "[]" s] Inr show ?thesis
    by (simp add: forward_search_def after_loop_def split: loop_exit.splits)
qed

subsection \<open>The blocks scenario evaluated\<close>

lemma blocks_search:
  "forward_search blocks_planner blocks_goal blocks_state [] = Inr (Some [pickup])"
  by (simp add: example_defs planner_defs eval_nat_numeral)

lemma blocks_created_eq:
  "blocks_created =
     \<lparr>actions = [(''pickup'', pickup)],
      plans = [(''plan-0123456789ab'',
                new_plan ''plan-0123456789ab'' blocks_goal blocks_state [pickup])]\<rparr>"
  by (simp add: blocks_created_def create_plan_def blocks_search)
     (simp add: blocks_planner_def init_def register_action_def sample_hex_def Let_def)

subsection \<open>The spinning domain evaluated\<close>

lemma spin_step: "apply_action spin st = insert ''turned'' st"
  by (simp add: apply_action_def apply_effect_def startswith_def spin_def)

lemma spin_applicable: "get_applicable_actions spin_planner st = [spin]"
  by (simp add: get_applicable_actions_def spin_planner_def register_action_def init_def)
     (simp add: spin_def)

lemma x_goal_check: "check_goal x_goal st = (''x'' \<in> st)"
  by (simp add: check_goal_def x_goal_def)

lemma spin_loop: "search_loop 10 spin_planner x_goal [] {} =
    Ran_out [spin, spin, spin, spin, spin, spin, spin, spin, spin, spin] {''turned''}"
  by (simp add: eval_nat_numeral spin_step spin_applicable x_goal_check)

subsection \<open>The two-routes domain evaluated\<close>

lemma two_routes_applicable: "get_applicable_actions two_routes st = [slow, quick]"
  by (simp add: get_applicable_actions_def two_routes_def register_action_def init_def)
     (simp add: slow_def quick_def)

lemma done_goal_check: "check_goal done_goal st = (''done'' \<in> st)"
  by (simp add: check_goal_def done_goal_def)

lemma slow_step: "apply_action slow st = insert ''done'' st"
  by (simp add: apply_action_def apply_effect_def startswith_def slow_def)

lemma quick_step: "apply_action quick st = insert ''done'' st"
  by (simp add: apply_action_def apply_effect_def startswith_def quick_def)

subsection \<open>The empty domain and the depth bound evaluated\<close>

lemma init_applicable: "get_applicable_actions init st = []"
  by (simp add: get_applicable_actions_def init_def)

lemma init_loop: "search_loop 10 init x_goal [] {} = Broke [] {}"
  by (simp add: eval_nat_numeral x_goal_check init_applicable)

lemma spin_loop_1: "search_loop 1 spin_planner x_goal [] {} = Ran_out [spin] {''turned''}"
  by (simp add: x_goal_check spin_applicable spin_step)

lemma depth_1: "max_depth_of [(''max_depth'', PyInt 1)] = PyInt 1"
  by (simp add: max_depth_of_def)

lemma depth_default: "max_depth_of [] = PyInt 10"
  by (simp add: max_depth_of_def)

subsection \<open>The two-step domain evaluated\<close>

lemma two_steps_applicable:
  "get_applicable_actions two_steps st =
     (if ''mid'' \<in> st then [finish, go, idle] else [go, idle])"
  by (simp add: get_applicable_actions_def two_steps_def register_action_def init_def)
     (simp add: finish_def go_def idle_def)

lemma go_step: "apply_action go st = insert ''mid'' st"
  by (simp add: apply_action_def apply_effect_def startswith_def go_def)

lemma finish_step: "apply_action finish st = insert ''done'' st"
  by (simp add: apply_action_def apply_effect_def startswith_def finish_def)

lemma depth_lowest_cost: "max_depth_of lowest_cost = PyInt 10"
  by (simp add: max_depth_of_def lowest_cost_def)

lemma two_steps_search:
  "forward_search two_steps done_goal {} lowest_cost = Inr (Some [go, finish])"
  by (simp add: forward_search_def depth_lowest_cost range_len_def eval_nat_numeral
      done_goal_check two_steps_applicable go_step finish_step)

subsection \<open>Effects and the \<open>NOT_\<close> prefix\<close>








subsection \<open>Applicable actions and registration order\<close>

text \<open>
  C8. In a registry with distinct identifiers (every registry built from the empty one
  by \<open>register_action\<close> is one), the applicable-actions query returns exactly the
  registered actions whose preconditions are all in the state, in the order of the
  registry. Registering succeeds and keeps the identifiers distinct; a new identifier
  goes to the end, and an identifier already present has its definition replaced at the
  position it had.
\<close>

theorem applicable_actions_registration_order:
  assumes "distinct (map fst (actions pl))"
  shows "get_applicable_actions pl st =
           filter (\<lambda>a. set (preconditions a) \<subseteq> st) (map snd (actions pl)) \<and>
         snd (register_action pl aid a) = True \<and>
         distinct (map fst (actions (fst (register_action pl aid a)))) \<and>
         plans (fst (register_action pl aid a)) = plans pl \<and>
         actions (fst (register_action pl aid a)) =
           (if aid \<in> fst ` set (actions pl)
            then map (\<lambda>p. if fst p = aid then (aid, a) else p) (actions pl)
            else actions pl @ [(aid, a)])"
  using assms
  by (simp add: get_applicable_actions_def register_action_def list_all_mem_subset
      update_absent update_present distinct_update)

theorem applicable_actions_registration_order_witness:
  "distinct (map fst (actions two_routes)) \<and>
   get_applicable_actions two_routes {} = [slow, quick] \<and>
   actions (fst (register_action two_routes ''slow'' pickup)) =
     [(''slow'', pickup), (''quick'', quick)] \<and>
   get_applicable_actions (fst (register_action two_routes ''slow'' pickup)) blocks_state =
     [pickup, quick]"
proof -
  have d: "distinct (map fst (actions two_routes))"
    by (simp add: example_defs)
  have r: "actions (fst (register_action two_routes ''slow'' pickup)) =
     [(''slow'', pickup), (''quick'', quick)]"
    using applicable_actions_registration_order [OF d, where aid = "''slow''" and a = pickup]
    by (simp add: example_defs)
  have a: "get_applicable_actions two_routes {} = [slow, quick]"
    by (simp add: example_defs get_applicable_actions_def)
  have b: "get_applicable_actions (fst (register_action two_routes ''slow'' pickup)) blocks_state =
     [pickup, quick]"
    by (simp add: example_defs get_applicable_actions_def)
  from d r a b show ?thesis by blast
qed

subsection \<open>The frame of \<open>execute_plan\<close>\<close>

text \<open>
  C10. \<open>execute_plan\<close> leaves the action registry, the identifiers of the stored
  plans and every stored plan other than the one named unchanged. For an unknown
  identifier it returns \<open>False\<close> and the planner as it was. For a known one the
  stored record afterwards has \<open>status\<close> \<open>IN_PROGRESS\<close> and every other key of
  it (\<open>goal\<close>, \<open>initial_state\<close>, \<open>actions\<close>, \<open>current_step\<close>,
  \<open>plan_id\<close>) reads as before.
\<close>

theorem execute_plan_frame:
  "actions (fst (execute_plan pl pid)) = actions pl \<and>
   map fst (plans (fst (execute_plan pl pid))) = map fst (plans pl) \<and>
   (\<forall>q. q \<noteq> pid \<longrightarrow> map_of (plans (fst (execute_plan pl pid))) q = map_of (plans pl) q) \<and>
   (map_of (plans pl) pid = None \<longrightarrow> execute_plan pl pid = (pl, False)) \<and>
   (\<forall>p. map_of (plans pl) pid = Some p \<longrightarrow>
      (\<exists>p'. map_of (plans (fst (execute_plan pl pid))) pid = Some p' \<and>
            map_of p' ''status'' = Some (VStatus IN_PROGRESS) \<and>
            (\<forall>k. k \<noteq> ''status'' \<longrightarrow> map_of p' k = map_of p k)))"
  by (auto simp: execute_plan_def map_of_update_same map_of_update_other update_keys
      map_of_eq_None_iff split: option.splits)

theorem execute_plan_frame_witness:
  "map_of (plans blocks_created) ''plan-0123456789ab'' =
     Some (new_plan ''plan-0123456789ab'' blocks_goal blocks_state [pickup]) \<and>
   (\<exists>p'. map_of (plans (fst (execute_plan blocks_created ''plan-0123456789ab'')))
           ''plan-0123456789ab'' = Some p' \<and>
         map_of p' ''status'' = Some (VStatus IN_PROGRESS) \<and>
         map_of p' ''current_step'' = Some (VInt 0) \<and>
         map_of p' ''actions'' = Some (VActions [pickup])) \<and>
   actions (fst (execute_plan blocks_created ''plan-0123456789ab'')) = [(''pickup'', pickup)] \<and>
   execute_plan blocks_created ''plan-none'' = (blocks_created, False)"
proof -
  have s: "map_of (plans blocks_created) ''plan-0123456789ab'' =
     Some (new_plan ''plan-0123456789ab'' blocks_goal blocks_state [pickup])"
    by (simp add: blocks_created_eq)
  have n: "map_of (plans blocks_created) ''plan-none'' = None"
    by (simp add: blocks_created_eq)
  have a: "actions blocks_created = [(''pickup'', pickup)]"
    by (simp add: blocks_created_eq)
  from execute_plan_frame [of blocks_created "''plan-0123456789ab''"] s
  obtain p' where p: "map_of (plans (fst (execute_plan blocks_created ''plan-0123456789ab'')))
           ''plan-0123456789ab'' = Some p'" "map_of p' ''status'' = Some (VStatus IN_PROGRESS)"
     "\<forall>k. k \<noteq> ''status'' \<longrightarrow> map_of p' k = map_of (new_plan ''plan-0123456789ab'' blocks_goal blocks_state [pickup]) k"
     and a': "actions (fst (execute_plan blocks_created ''plan-0123456789ab'')) = actions blocks_created"
    by blast
  from p(3) have "map_of p' ''current_step'' = Some (VInt 0)" "map_of p' ''actions'' = Some (VActions [pickup])"
    by (simp_all add: new_plan_def)
  moreover from execute_plan_frame [of blocks_created "''plan-none''"] n
  have "execute_plan blocks_created ''plan-none'' = (blocks_created, False)" by blast
  ultimately show ?thesis using s p(1,2) a a' by auto
qed

subsection \<open>Soundness of stored plans\<close>

text \<open>
  C1. Whenever \<open>create_plan\<close> returns a plan identifier, the plan stored under it
  holds the goal, the initial state and an action sequence such that applying its
  actions in order to the initial state gives a state that contains every condition of
  the goal.
\<close>

theorem create_plan_sound:
  assumes "create_plan pl hex g s c = Inr (pl', Some pid)"
  shows "\<exists>acts. map_of (plans pl') pid = Some (new_plan pid g s acts) \<and>
           map_of (new_plan pid g s acts) ''actions'' = Some (VActions acts) \<and>
           set (conditions g) \<subseteq> apply_sequence s acts"
proof -
  let ?c = "case c of None \<Rightarrow> [] | Some d \<Rightarrow> d"
  from assms obtain acts where f: "forward_search pl g s ?c = Inr (Some acts)"
    and p: "pl' = pl\<lparr>plans := AList.update pid (new_plan pid g s acts) (plans pl)\<rparr>"
    by (auto simp: create_plan_def Let_def split: sum.splits option.splits)
  from forward_search_Some [OF f] have "check_goal g (apply_sequence s acts)" by simp
  then have "set (conditions g) \<subseteq> apply_sequence s acts"
    by (simp add: check_goal_def list_all_mem_subset)
  with p show ?thesis
    by (intro exI [of _ acts]) (simp add: map_of_update_same new_plan_def)
qed

theorem create_plan_sound_witness:
  "create_plan blocks_planner sample_hex blocks_goal blocks_state None =
     Inr (blocks_created, Some ''plan-0123456789ab'') \<and>
   (\<exists>acts. map_of (plans blocks_created) ''plan-0123456789ab'' =
             Some (new_plan ''plan-0123456789ab'' blocks_goal blocks_state acts) \<and>
           set (conditions blocks_goal) \<subseteq> apply_sequence blocks_state acts)"
proof -
  have c: "create_plan blocks_planner sample_hex blocks_goal blocks_state None =
     Inr (blocks_created, Some ''plan-0123456789ab'')"
    by (simp add: create_plan_def blocks_search blocks_created_eq)
       (simp add: blocks_planner_def init_def register_action_def sample_hex_def Let_def)
  from create_plan_sound [OF c] show ?thesis using c by blast
qed

subsection \<open>Termination within the depth bound\<close>

text \<open>
  C7. For an integer \<open>max_depth\<close> (given, or the default 10) the loop of the search
  runs over \<open>range(max_depth)\<close>: it performs at most that many expansions, whatever
  the domain, cycles included, and the search then returns either no plan or a plan of
  at most that many actions. The loop is a structural recursion on the length of the
  range, so the search always returns. A negative \<open>max_depth\<close> gives an empty range.
\<close>

theorem forward_search_terminates_within_depth:
  assumes "max_depth_of c = PyInt n"
  shows "length (exit_plan (search_loop (nat n) pl g [] s)) \<le> nat n \<and>
         (forward_search pl g s c = Inr None \<or>
          (\<exists>p. forward_search pl g s c = Inr (Some p) \<and> length p \<le> nat n))"
proof -
  from search_loop_trace [where n = "nat n" and pl = pl and g = g and plan = "[]" and st = s]
  obtain ext where e: "length ext \<le> nat n"
     "(case search_loop (nat n) pl g [] s of
        Returned p \<Rightarrow> p = [] @ ext \<and> check_goal g (apply_sequence s ext)
      | Broke p st' \<Rightarrow> p = [] @ ext \<and> st' = apply_sequence s ext \<and>
          \<not> check_goal g st' \<and> get_applicable_actions pl st' = []
      | Ran_out p st' \<Rightarrow> p = [] @ ext \<and> st' = apply_sequence s ext \<and> length ext = nat n)"
    by blast
  then have x: "exit_plan (search_loop (nat n) pl g [] s) = ext"
    by (auto split: loop_exit.splits)
  have "forward_search pl g s c = Inr None \<or> forward_search pl g s c = Inr (Some ext)"
    using assms e(2)
    by (auto simp: forward_search_def range_len_def after_loop_def split: loop_exit.splits)
  with x e(1) show ?thesis by auto
qed

theorem forward_search_terminates_within_depth_witness:
  "max_depth_of [] = PyInt 10 \<and>
   apply_action spin {''turned''} = {''turned''} \<and>
   length (exit_plan (search_loop 10 spin_planner x_goal [] {})) = 10 \<and>
   forward_search spin_planner x_goal {} [] = Inr None"
proof -
  have m: "max_depth_of [] = PyInt 10" by (simp add: max_depth_of_def)
  have a: "apply_action spin {''turned''} = {''turned''}"
    by (simp add: spin_step)
  have f: "forward_search spin_planner x_goal {} [] = Inr None"
    by (simp add: forward_search_def m range_len_def spin_loop after_loop_def x_goal_check)
  have l: "length (exit_plan (search_loop 10 spin_planner x_goal [] {})) = 10"
    by (simp add: spin_loop)
  from forward_search_terminates_within_depth [OF m, of spin_planner x_goal "{}"] m a f l
  show ?thesis by simp
qed

subsection \<open>Registration performs no validation\<close>

text \<open>
  C2, as the code has it. \<open>register_action\<close> checks nothing: for every action, also
  one whose effects both add and remove a fact or whose cost is negative, it returns
  \<open>True\<close> and stores the action under the identifier; the definitions under all
  other identifiers and the plan store stay as they were.
\<close>

theorem register_action_unvalidated:
  "snd (register_action pl aid a) = True \<and>
   map_of (actions (fst (register_action pl aid a))) aid = Some a \<and>
   (\<forall>b. b \<noteq> aid \<longrightarrow>
      map_of (actions (fst (register_action pl aid a))) b = map_of (actions pl) b) \<and>
   plans (fst (register_action pl aid a)) = plans pl"
  by (simp add: register_action_def map_of_update_same map_of_update_other)

theorem register_action_unvalidated_witness:
  "snd (register_action blocks_planner ''clash'' clash) = True \<and>
   map_of (actions (fst (register_action blocks_planner ''clash'' clash))) ''clash'' = Some clash \<and>
   map_of (actions (fst (register_action blocks_planner ''clash'' clash))) ''pickup'' = Some pickup"
proof -
  have "map_of (actions blocks_planner) ''pickup'' = Some pickup"
    by (simp add: blocks_planner_def register_action_def init_def)
  with register_action_unvalidated [of blocks_planner "''clash''" clash]
  show ?thesis by simp
qed

text \<open>
  The action \<open>clash\<close> adds and removes \<open>x\<close> and costs \<open>-1\<close>; registering it in a
  fresh planner succeeds and changes the registry.
\<close>

theorem register_action_validation_counterexample:
  "''x'' \<in> set (effects clash) \<and> ''NOT_x'' \<in> set (effects clash) \<and> cost clash < 0 \<and>
   register_action init ''clash'' clash = (\<lparr>actions = [(''clash'', clash)], plans = []\<rparr>, True) \<and>
   actions (fst (register_action init ''clash'' clash)) \<noteq> actions init"
  by (simp add: register_action_def init_def) (simp add: clash_def)

subsection \<open>\<open>execute_plan\<close> does not look at the status\<close>

text \<open>
  C3, as the code has it. \<open>execute_plan\<close> succeeds exactly when the identifier is
  known, whatever status the stored plan has; the status is then \<open>IN_PROGRESS\<close> and
  \<open>current_step\<close> reads as before. For an unknown identifier it returns \<open>False\<close>
  and the planner unchanged.
\<close>

theorem execute_plan_any_status:
  "(snd (execute_plan pl pid) = True) = (map_of (plans pl) pid \<noteq> None) \<and>
   (map_of (plans pl) pid = None \<longrightarrow> execute_plan pl pid = (pl, False)) \<and>
   (\<forall>p. map_of (plans pl) pid = Some p \<longrightarrow>
      snd (execute_plan pl pid) = True \<and>
      get_plan_status (fst (execute_plan pl pid)) pid = Inr (Some (VStatus IN_PROGRESS)) \<and>
      (\<exists>p'. get_plan (fst (execute_plan pl pid)) pid = Some p' \<and>
            map_of p' ''current_step'' = map_of p ''current_step''))"
  by (auto simp: execute_plan_def get_plan_status_def get_plan_def map_of_update_same
      map_of_update_other update_not_Nil split: option.splits)

theorem execute_plan_any_status_witness:
  "get_plan_status blocks_completed ''plan-0123456789ab'' = Inr (Some (VStatus COMPLETED)) \<and>
   snd (execute_plan blocks_completed ''plan-0123456789ab'') = True \<and>
   get_plan_status (fst (execute_plan blocks_completed ''plan-0123456789ab''))
     ''plan-0123456789ab'' = Inr (Some (VStatus IN_PROGRESS)) \<and>
   execute_plan blocks_completed ''plan-none'' = (blocks_completed, False)"
proof -
  have s: "map_of (plans blocks_completed) ''plan-0123456789ab'' =
    Some (AList.update ''status'' (VStatus COMPLETED)
                  (new_plan ''plan-0123456789ab'' blocks_goal blocks_state [pickup]))"
    by (simp add: blocks_completed_def)
  have n: "map_of (plans blocks_completed) ''plan-none'' = None"
    by (simp add: blocks_completed_def)
  have g: "get_plan_status blocks_completed ''plan-0123456789ab'' = Inr (Some (VStatus COMPLETED))"
    by (simp add: get_plan_status_def s update_not_Nil map_of_update_same)
  from execute_plan_any_status [of blocks_completed "''plan-0123456789ab''"] s
    execute_plan_any_status [of blocks_completed "''plan-none''"] n g
  show ?thesis by simp
qed

text \<open>
  Executing the plan of the blocks scenario twice: the second call finds the plan
  \<open>IN_PROGRESS\<close> and succeeds again.
\<close>

theorem execute_plan_twice_counterexample:
  "snd (execute_plan blocks_created ''plan-0123456789ab'') = True \<and>
   get_plan_status (fst (execute_plan blocks_created ''plan-0123456789ab''))
     ''plan-0123456789ab'' = Inr (Some (VStatus IN_PROGRESS)) \<and>
   snd (execute_plan (fst (execute_plan blocks_created ''plan-0123456789ab''))
     ''plan-0123456789ab'') = True"
  by (simp add: blocks_created_eq execute_plan_def get_plan_status_def new_plan_def)

subsection \<open>The search commits to the first applicable action\<close>

text \<open>
  C4, as the code has it. The search has no cost-based policy. At every step of the
  loop, and so at every position of a returned plan, the goal does not yet hold and the
  action taken is the first one that \<open>_get_applicable_actions\<close> lists for the state
  reached, that is, the first applicable action in registration order. The search reads
  no key of the constraints but \<open>max_depth\<close>, so a selection policy named there
  changes nothing, and it reads no cost: giving the registered actions any other costs
  leaves the result the same, up to the cost field of the actions in it. In particular,
  when the goal does not hold in the initial state, \<open>max_depth\<close> is at least 1, and
  the first applicable action reaches the goal in one step, the plan returned is that
  action alone, whatever its cost and that of the other applicable actions.
\<close>

theorem forward_search_first_applicable:
  "(max_depth_of c = PyInt n \<longrightarrow>
      (\<forall>i<length (exit_plan (search_loop (nat n) pl g [] s)).
         \<not> check_goal g
             (apply_sequence s (take i (exit_plan (search_loop (nat n) pl g [] s)))) \<and>
         (\<exists>rest. get_applicable_actions pl
                    (apply_sequence s (take i (exit_plan (search_loop (nat n) pl g [] s)))) =
                  exit_plan (search_loop (nat n) pl g [] s) ! i # rest))) \<and>
   (\<forall>p. forward_search pl g s c = Inr (Some p) \<longrightarrow>
      (\<forall>i<length p.
         \<not> check_goal g (apply_sequence s (take i p)) \<and>
         (\<exists>rest. get_applicable_actions pl (apply_sequence s (take i p)) = p ! i # rest))) \<and>
   (\<forall>c'. max_depth_of c' = max_depth_of c \<longrightarrow>
      forward_search pl g s c' = forward_search pl g s c) \<and>
   forward_search (recost k pl) g s c =
     (case forward_search pl g s c of
        Inl e \<Rightarrow> Inl e
      | Inr None \<Rightarrow> Inr None
      | Inr (Some p) \<Rightarrow> Inr (Some (map (\<lambda>a. a\<lparr>cost := k a\<rparr>) p))) \<and>
   (max_depth_of c = PyInt n \<and> 1 \<le> n \<and> \<not> check_goal g s \<and>
    get_applicable_actions pl s = a # rest \<and> check_goal g (apply_action a s) \<longrightarrow>
      forward_search pl g s c = Inr (Some [a]))"
proof -
  have loop: "\<forall>i<length (exit_plan (search_loop m pl g [] s)).
         \<not> check_goal g (apply_sequence s (take i (exit_plan (search_loop m pl g [] s)))) \<and>
         (\<exists>rest. get_applicable_actions pl
                    (apply_sequence s (take i (exit_plan (search_loop m pl g [] s)))) =
                  exit_plan (search_loop m pl g [] s) ! i # rest)" for m
    using search_loop_first [of m pl g "[]" s] by auto
  have ret: "\<forall>i<length p.
         \<not> check_goal g (apply_sequence s (take i p)) \<and>
         (\<exists>rest. get_applicable_actions pl (apply_sequence s (take i p)) = p ! i # rest)"
    if "forward_search pl g s c = Inr (Some p)" for p
  proof -
    from forward_search_exit_plan [OF that]
    obtain m where "p = exit_plan (search_loop (nat m) pl g [] s)" by blast
    with loop [of "nat m"] show ?thesis by simp
  qed
  have one: "forward_search pl g s c = Inr (Some [a])"
    if h: "max_depth_of c = PyInt n \<and> 1 \<le> n \<and> \<not> check_goal g s \<and>
      get_applicable_actions pl s = a # rest \<and> check_goal g (apply_action a s)"
  proof -
    from h obtain j where j: "nat n = Suc j"
      by (cases "nat n") auto
    from h have "search_loop (Suc j) pl g [] s = Returned [a] \<or>
         search_loop (Suc j) pl g [] s = Ran_out [a] (apply_action a s)"
      by (intro search_first_step) auto
    with h j show ?thesis
      by (auto simp: forward_search_def range_len_def after_loop_def)
  qed
  from loop ret one forward_search_max_depth_only [of _ c pl g s]
    forward_search_recost [of k pl g s c]
  show ?thesis by blast
qed

theorem forward_search_first_applicable_witness:
  "map_of lowest_cost ''selection_policy'' = Some (PyStr ''LOWEST_COST'') \<and>
   max_depth_of lowest_cost = PyInt 10 \<and>
   forward_search two_steps done_goal {} lowest_cost = Inr (Some [go, finish]) \<and>
   (\<exists>rest. get_applicable_actions two_steps (apply_sequence {} []) = go # rest) \<and>
   (\<exists>rest. get_applicable_actions two_steps (apply_sequence {} [go]) = finish # rest) \<and>
   forward_search two_steps done_goal {} [] = Inr (Some [go, finish]) \<and>
   forward_search (recost (\<lambda>a. 6 - cost a) two_steps) done_goal {} lowest_cost =
     Inr (Some [go\<lparr>cost := 1\<rparr>, finish\<lparr>cost := 1\<rparr>]) \<and>
   \<not> check_goal done_goal {} \<and>
   get_applicable_actions two_routes {} = [slow, quick] \<and>
   check_goal done_goal (apply_action slow {}) \<and>
   forward_search two_routes done_goal {} lowest_cost = Inr (Some [slow])"
proof -
  note t = forward_search_first_applicable [where c = lowest_cost and n = 10
      and pl = two_steps and g = done_goal and s = "{}" and k = "\<lambda>a. 6 - cost a"]
  have p: "map_of lowest_cost ''selection_policy'' = Some (PyStr ''LOWEST_COST'')"
    by (simp add: lowest_cost_def)
  have d: "max_depth_of [] = max_depth_of lowest_cost"
    by (simp add: depth_lowest_cost depth_default)
  from t two_steps_search
  have ix: "\<forall>i<length [go, finish].
         \<not> check_goal done_goal (apply_sequence {} (take i [go, finish])) \<and>
         (\<exists>rest. get_applicable_actions two_steps (apply_sequence {} (take i [go, finish])) =
            [go, finish] ! i # rest)"
    by blast
  from ix [rule_format, of 0]
  have 0: "\<exists>rest. get_applicable_actions two_steps (apply_sequence {} []) = go # rest"
    by simp
  from ix [rule_format, of 1]
  have 1: "\<exists>rest. get_applicable_actions two_steps (apply_sequence {} [go]) = finish # rest"
    by simp
  from t d two_steps_search
  have 2: "forward_search two_steps done_goal {} [] = Inr (Some [go, finish])"
    by metis
  from t have "forward_search (recost (\<lambda>a. 6 - cost a) two_steps) done_goal {} lowest_cost =
     (case forward_search two_steps done_goal {} lowest_cost of
        Inl e \<Rightarrow> Inl e
      | Inr None \<Rightarrow> Inr None
      | Inr (Some p) \<Rightarrow> Inr (Some (map (\<lambda>a. a\<lparr>cost := 6 - cost a\<rparr>) p)))"
    by blast
  then have 3: "forward_search (recost (\<lambda>a. 6 - cost a) two_steps) done_goal {} lowest_cost =
     Inr (Some [go\<lparr>cost := 1\<rparr>, finish\<lparr>cost := 1\<rparr>])"
    by (simp add: two_steps_search) (simp add: go_def finish_def)
  have n: "\<not> check_goal done_goal {}" by (simp add: done_goal_check)
  have a: "get_applicable_actions two_routes {} = [slow, quick]" by (rule two_routes_applicable)
  have c: "check_goal done_goal (apply_action slow {})" by (simp add: done_goal_check slow_step)
  from forward_search_first_applicable [where c = lowest_cost and n = 10
      and pl = two_routes and g = done_goal and s = "{}" and a = slow and rest = "[quick]"]
    depth_lowest_cost n a c
  have 4: "forward_search two_routes done_goal {} lowest_cost = Inr (Some [slow])"
    by simp
  from p depth_lowest_cost two_steps_search 0 1 2 3 n a c 4 show ?thesis by blast
qed

text \<open>
  Under \<open>LOWEST_COST\<close>, with \<open>slow\<close> (cost 5) registered before \<open>quick\<close>
  (cost 1) and both reaching the goal in one step, the plan returned is \<open>slow\<close>.
\<close>

theorem lowest_cost_counterexample:
  "map_of lowest_cost ''selection_policy'' = Some (PyStr ''LOWEST_COST'') \<and>
   cost slow = 5 \<and> cost quick = 1 \<and>
   get_applicable_actions two_routes {} = [slow, quick] \<and>
   check_goal done_goal (apply_action slow {}) \<and>
   check_goal done_goal (apply_action quick {}) \<and>
   forward_search two_routes done_goal {} lowest_cost = Inr (Some [slow]) \<and>
   forward_search two_routes done_goal {} lowest_cost \<noteq> Inr (Some [quick])"
proof -
  have "forward_search two_routes done_goal {} lowest_cost = Inr (Some [slow])"
    by (simp add: forward_search_def max_depth_of_def lowest_cost_def range_len_def
        eval_nat_numeral done_goal_check two_routes_applicable slow_step)
  moreover have "slow \<noteq> quick" by (simp add: slow_def quick_def)
  moreover have "cost slow = 5" "cost quick = 1" by (simp_all add: slow_def quick_def)
  ultimately show ?thesis
    by (simp add: lowest_cost_def two_routes_applicable done_goal_check slow_step quick_step)
qed

subsection \<open>One failure value for every cause\<close>

text \<open>
  C5, as the code has it. For an integer \<open>max_depth\<close> the search fails in exactly two
  ways: the loop was left by \<open>break\<close> because no action was applicable, or the range
  ran out in a state that does not satisfy the goal. In both the result is the one value
  \<open>None\<close>, and \<open>create_plan\<close> then returns \<open>None\<close> and stores nothing. The
  source takes no deadline, so there is no third cause.
\<close>

theorem search_failure_undifferentiated:
  assumes "max_depth_of c = PyInt n"
  shows "(forward_search pl g s c = Inr None) =
           ((\<exists>p st. search_loop (nat n) pl g [] s = Broke p st) \<or>
            (\<exists>p st. search_loop (nat n) pl g [] s = Ran_out p st \<and> \<not> check_goal g st)) \<and>
         (forward_search pl g s c = Inr None \<longrightarrow>
            create_plan pl hex g s (Some c) = Inr (pl, None))"
proof -
  from search_loop_cases [of "nat n" pl g "[]" s] assms
  have "(forward_search pl g s c = Inr None) =
           ((\<exists>p st. search_loop (nat n) pl g [] s = Broke p st) \<or>
            (\<exists>p st. search_loop (nat n) pl g [] s = Ran_out p st \<and> \<not> check_goal g st))"
    by (auto simp: forward_search_def range_len_def after_loop_def)
  moreover have "forward_search pl g s c = Inr None \<longrightarrow>
            create_plan pl hex g s (Some c) = Inr (pl, None)"
    by (simp add: create_plan_def)
  ultimately show ?thesis by blast
qed

theorem search_failure_undifferentiated_witness:
  "max_depth_of [] = PyInt 10 \<and>
   search_loop 10 init x_goal [] {} = Broke [] {} \<and>
   forward_search init x_goal {} [] = Inr None \<and>
   create_plan init sample_hex x_goal {} (Some []) = Inr (init, None)"
proof -
  from search_failure_undifferentiated [OF depth_default, of init x_goal "{}" sample_hex]
    init_loop depth_default
  show ?thesis by simp
qed

text \<open>
  In the empty domain the loop breaks at once; in the spinning domain with
  \<open>max_depth = 1\<close> the range runs out. Both searches return \<open>None\<close>.
\<close>

theorem failure_kinds_counterexample:
  "search_loop 10 init x_goal [] {} = Broke [] {} \<and>
   search_loop 1 spin_planner x_goal [] {} = Ran_out [spin] {''turned''} \<and>
   forward_search init x_goal {} [] = Inr None \<and>
   forward_search spin_planner x_goal {} [(''max_depth'', PyInt 1)] = Inr None \<and>
   create_plan init sample_hex x_goal {} None = Inr (init, None) \<and>
   create_plan spin_planner sample_hex x_goal {} (Some [(''max_depth'', PyInt 1)]) =
     Inr (spin_planner, None)"
proof -
  have a: "forward_search init x_goal {} [] = Inr None"
    by (simp add: forward_search_def depth_default range_len_def init_loop after_loop_def x_goal_check)
  have b: "forward_search spin_planner x_goal {} [(''max_depth'', PyInt 1)] = Inr None"
    by (simp add: forward_search_def depth_1 range_len_def spin_applicable spin_step
        after_loop_def x_goal_check)
  from a have c: "create_plan init sample_hex x_goal {} None = Inr (init, None)"
    by (simp add: create_plan_def)
  from b have d: "create_plan spin_planner sample_hex x_goal {}
      (Some [(''max_depth'', PyInt 1)]) = Inr (spin_planner, None)"
    by (simp add: create_plan_def)
  from init_loop spin_loop_1 a b c d show ?thesis by blast
qed

subsection \<open>A goal that already holds\<close>

text \<open>
  C6, as the code has it. When every condition of the goal is in the initial state,
  then for every integer \<open>max_depth\<close> (zero and negative values included)
  \<open>create_plan\<close> performs no expansion and stores, under the new identifier, a plan
  with the empty action sequence, status \<open>PENDING\<close> and \<open>current_step\<close> 0. The
  stored plan has no \<open>total_cost\<close> entry.
\<close>

theorem satisfied_goal_empty_plan:
  assumes "set (conditions g) \<subseteq> s"
    and "max_depth_of (case c of None \<Rightarrow> [] | Some d \<Rightarrow> d) = PyInt n"
  shows "exit_plan (search_loop (nat n) pl g [] s) = [] \<and>
         create_plan pl hex g s c =
           Inr (pl\<lparr>plans := AList.update (''plan-'' @ take 12 hex)
                        (new_plan (''plan-'' @ take 12 hex) g s []) (plans pl)\<rparr>,
                Some (''plan-'' @ take 12 hex)) \<and>
         map_of (new_plan (''plan-'' @ take 12 hex) g s []) ''actions'' = Some (VActions []) \<and>
         map_of (new_plan (''plan-'' @ take 12 hex) g s []) ''status'' = Some (VStatus PENDING) \<and>
         map_of (new_plan (''plan-'' @ take 12 hex) g s []) ''current_step'' = Some (VInt 0) \<and>
         map_of (new_plan (''plan-'' @ take 12 hex) g s []) ''total_cost'' = None"
proof -
  let ?c = "case c of None \<Rightarrow> [] | Some d \<Rightarrow> d"
  from assms(1) have g: "check_goal g s"
    by (simp add: check_goal_def list_all_mem_subset)
  from search_loop_satisfied [OF g, of "nat n" pl]
  have x: "exit_plan (search_loop (nat n) pl g [] s) = []" by auto
  from search_loop_satisfied [OF g, of "nat n" pl] g assms(2)
  have "forward_search pl g s ?c = Inr (Some [])"
    by (auto simp: forward_search_def range_len_def after_loop_def)
  then have "create_plan pl hex g s c =
           Inr (pl\<lparr>plans := AList.update (''plan-'' @ take 12 hex)
                        (new_plan (''plan-'' @ take 12 hex) g s []) (plans pl)\<rparr>,
                Some (''plan-'' @ take 12 hex))"
    by (simp add: create_plan_def Let_def)
  with x show ?thesis by (simp add: new_plan_def)
qed

theorem satisfied_goal_empty_plan_witness:
  "set (conditions done_goal) \<subseteq> {''done''} \<and>
   max_depth_of [(''max_depth'', PyInt 0)] = PyInt 0 \<and>
   exit_plan (search_loop 0 two_routes done_goal [] {''done''}) = [] \<and>
   create_plan two_routes sample_hex done_goal {''done''} (Some [(''max_depth'', PyInt 0)]) =
     Inr (two_routes\<lparr>plans := [(''plan-0123456789ab'',
            new_plan ''plan-0123456789ab'' done_goal {''done''} [])]\<rparr>,
          Some ''plan-0123456789ab'')"
proof -
  have a: "set (conditions done_goal) \<subseteq> {''done''}" by (simp add: done_goal_def)
  have m: "max_depth_of (case Some [(''max_depth'', PyInt 0)] of None \<Rightarrow> [] | Some d \<Rightarrow> d) = PyInt 0"
    by (simp add: max_depth_of_def)
  have p: "plans two_routes = []" by (simp add: two_routes_def register_action_def init_def)
  from satisfied_goal_empty_plan [OF a m, of two_routes sample_hex] a m p show ?thesis
    by (simp add: sample_hex_def)
qed

text \<open>
  The plan stored for a goal that already holds, with \<open>max_depth = 0\<close>: its keys
  are the six that \<open>create_plan\<close> writes, and \<open>total_cost\<close> is not among them.
\<close>

theorem total_cost_counterexample:
  "set (conditions done_goal) \<subseteq> {''done''} \<and>
   create_plan init sample_hex done_goal {''done''} (Some [(''max_depth'', PyInt 0)]) =
     Inr (\<lparr>actions = [], plans = [(''plan-0123456789ab'',
            new_plan ''plan-0123456789ab'' done_goal {''done''} [])]\<rparr>,
          Some ''plan-0123456789ab'') \<and>
   map fst (new_plan ''plan-0123456789ab'' done_goal {''done''} []) =
     [''plan_id'', ''goal'', ''initial_state'', ''actions'', ''status'', ''current_step''] \<and>
   map_of (new_plan ''plan-0123456789ab'' done_goal {''done''} []) ''total_cost'' = None"
  by (simp add: create_plan_def forward_search_def max_depth_of_def range_len_def after_loop_def
      done_goal_check init_def sample_hex_def new_plan_def Let_def)
     (simp add: done_goal_def)

subsection \<open>The \<open>NOT_\<close> prefix\<close>




end
